theory Spec2Isabelle
  imports Complex_Main "HOL-Library.Multiset" "HOL-Library.Word"
begin

section \<open>LuminOrderApp: frames of a movie ordered by brightness\<close>

text \<open>
  A shallow embedding of \<^verbatim>\<open>src/LuminOrderApp.cpp\<close>: the brightness of a frame, the
  comparator \<^verbatim>\<open>FrameBrightnessSort\<close>, the two passes over the movie, the offsets file
  and the remaining-time estimate.
\<close>

subsection \<open>The C type double\<close>

text \<open>
  A \<^verbatim>\<open>double\<close> is a finite value, an infinity or a NaN. Finite values are exact reals:
  the rounding of a finite result to 53 bits and the overflow of a finite result are not
  part of the model, and neither is the sign of a zero. The special values follow
  IEEE 754: a NaN operand gives NaN, \<open>0 / 0\<close> and \<open>\<infinity> - \<infinity>\<close> and \<open>0 * \<infinity>\<close> are NaN,
  and every comparison with a NaN is false but \<^verbatim>\<open>!=\<close>, which is true. A zero divisor is
  taken as \<open>+0.0\<close>, which is what each division of the program can meet: the conversion
  of the \<^verbatim>\<open>int\<close> 0, and \<open>0 / total\<close> with a positive \<open>total\<close>.
\<close>

datatype dbl = Fin real | PInf | NInf | NaN

definition dbl_of_int :: "int \<Rightarrow> dbl" where
  "dbl_of_int n = Fin (real_of_int n)"


fun dadd :: "dbl \<Rightarrow> dbl \<Rightarrow> dbl" where
  "dadd NaN _ = NaN"
| "dadd _ NaN = NaN"
| "dadd (Fin x) (Fin y) = Fin (x + y)"
| "dadd PInf NInf = NaN"
| "dadd NInf PInf = NaN"
| "dadd PInf _ = PInf"
| "dadd NInf _ = NInf"
| "dadd (Fin x) PInf = PInf"
| "dadd (Fin x) NInf = NInf"


fun dmul :: "dbl \<Rightarrow> dbl \<Rightarrow> dbl" where
  "dmul NaN _ = NaN"
| "dmul _ NaN = NaN"
| "dmul (Fin x) (Fin y) = Fin (x * y)"
| "dmul PInf (Fin y) = (if y = 0 then NaN else if 0 < y then PInf else NInf)"
| "dmul NInf (Fin y) = (if y = 0 then NaN else if 0 < y then NInf else PInf)"
| "dmul (Fin x) PInf = (if x = 0 then NaN else if 0 < x then PInf else NInf)"
| "dmul (Fin x) NInf = (if x = 0 then NaN else if 0 < x then NInf else PInf)"
| "dmul PInf PInf = PInf"
| "dmul NInf NInf = PInf"
| "dmul PInf NInf = NInf"
| "dmul NInf PInf = NInf"

fun ddiv :: "dbl \<Rightarrow> dbl \<Rightarrow> dbl" where
  "ddiv NaN _ = NaN"
| "ddiv _ NaN = NaN"
| "ddiv (Fin x) (Fin y) =
     (if y \<noteq> 0 then Fin (x / y)
      else if x = 0 then NaN
      else if 0 < x then PInf else NInf)"
| "ddiv (Fin x) PInf = Fin 0"
| "ddiv (Fin x) NInf = Fin 0"
| "ddiv PInf (Fin y) = (if 0 \<le> y then PInf else NInf)"
| "ddiv NInf (Fin y) = (if 0 \<le> y then NInf else PInf)"
| "ddiv PInf PInf = NaN"
| "ddiv PInf NInf = NaN"
| "ddiv NInf PInf = NaN"
| "ddiv NInf NInf = NaN"

text \<open>The comparisons \<^verbatim>\<open><\<close> and \<^verbatim>\<open>!=\<close> of two doubles.\<close>

fun dlt :: "dbl \<Rightarrow> dbl \<Rightarrow> bool" where
  "dlt NaN _ = False"
| "dlt _ NaN = False"
| "dlt (Fin x) (Fin y) = (x < y)"
| "dlt PInf _ = False"
| "dlt NInf NInf = False"
| "dlt NInf _ = True"
| "dlt (Fin x) PInf = True"
| "dlt (Fin x) NInf = False"

fun dne :: "dbl \<Rightarrow> dbl \<Rightarrow> bool" where
  "dne NaN _ = True"
| "dne _ NaN = True"
| "dne a b = (a \<noteq> b)"

definition deq :: "dbl \<Rightarrow> dbl \<Rightarrow> bool" where
  "deq a b = (\<not> dne a b)"

text \<open>
  \<^verbatim>\<open>round\<close> of \<^verbatim>\<open>math.h\<close>: the nearest integer, a half away from zero; an infinity
  and a NaN are returned as they are.
\<close>

definition c_round :: "real \<Rightarrow> int" where
  "c_round x = (if 0 \<le> x then \<lfloor>x + 1 / 2\<rfloor> else - \<lfloor>- x + 1 / 2\<rfloor>)"

fun dround :: "dbl \<Rightarrow> dbl" where
  "dround (Fin x) = Fin (real_of_int (c_round x))"
| "dround d = d"

subsection \<open>Configuration\<close>

text \<open>\<^verbatim>\<open>#define START_FRAME 0\<close> and \<^verbatim>\<open>#define ROUND_TO 10e-3\<close>.\<close>

definition START_FRAME :: int where
  "START_FRAME = 0"

definition ROUND_TO :: dbl where
  "ROUND_TO = Fin (10 / 10 ^ 3)"

subsection \<open>FrameData and the comparator\<close>

record FrameData =
  mIndex :: int
  mBrightness :: dbl

definition FrameBrightnessSort :: "FrameData \<Rightarrow> FrameData \<Rightarrow> bool" where
  "FrameBrightnessSort a b =
     (let roundA = dmul (dround (ddiv (mBrightness a) ROUND_TO)) ROUND_TO;
          roundB = dmul (dround (ddiv (mBrightness b) ROUND_TO)) ROUND_TO
      in if dne roundA roundB then dlt roundA roundB else mIndex a < mIndex b)"

text \<open>
  The bucket of a brightness as the specification words it, on the reals:
  \<open>round(x / \<epsilon>) \<cdot> \<epsilon>\<close> with \<open>\<epsilon> = 0.01\<close>; and the order the specification gives to two
  records of finite brightness.
\<close>

definition spec_bucket :: "real \<Rightarrow> real" where
  "spec_bucket x = real_of_int (c_round (x / (1 / 100))) * (1 / 100)"


text \<open>The rounded value the comparator computes for a record.\<close>

definition bucket :: "FrameData \<Rightarrow> dbl" where
  "bucket a = dmul (dround (ddiv (mBrightness a) ROUND_TO)) ROUND_TO"

subsection \<open>std::sort\<close>

text \<open>
  \<^verbatim>\<open>std::sort\<close> belongs to the C++ library. It requires of its comparator a strict weak
  ordering of the values it sorts: irreflexive, transitive, and with a transitive
  equivalence "neither before the other". On any other comparator its behaviour is
  undefined, which is \<open>None\<close> here. On a strict weak ordering it returns a permutation
  in which no element is before an earlier one; the order of equivalent elements is
  not specified, and the model takes the one of an insertion sort.
\<close>

definition incomparable :: "('a \<Rightarrow> 'a \<Rightarrow> bool) \<Rightarrow> 'a \<Rightarrow> 'a \<Rightarrow> bool" where
  "incomparable cmp a b = (\<not> cmp a b \<and> \<not> cmp b a)"

definition strict_weak_on :: "('a \<Rightarrow> 'a \<Rightarrow> bool) \<Rightarrow> 'a list \<Rightarrow> bool" where
  "strict_weak_on cmp xs =
     ((\<forall>a \<in> set xs. \<not> cmp a a)
      \<and> (\<forall>a \<in> set xs. \<forall>b \<in> set xs. \<forall>c \<in> set xs. cmp a b \<and> cmp b c \<longrightarrow> cmp a c)
      \<and> (\<forall>a \<in> set xs. \<forall>b \<in> set xs. \<forall>c \<in> set xs.
            incomparable cmp a b \<and> incomparable cmp b c \<longrightarrow> incomparable cmp a c))"

fun insert_by :: "('a \<Rightarrow> 'a \<Rightarrow> bool) \<Rightarrow> 'a \<Rightarrow> 'a list \<Rightarrow> 'a list" where
  "insert_by cmp x [] = [x]"
| "insert_by cmp x (y # ys) =
     (if cmp y x then y # insert_by cmp x ys else x # y # ys)"

fun insertion_sort :: "('a \<Rightarrow> 'a \<Rightarrow> bool) \<Rightarrow> 'a list \<Rightarrow> 'a list" where
  "insertion_sort cmp [] = []"
| "insertion_sort cmp (x # xs) = insert_by cmp x (insertion_sort cmp xs)"

definition std_sort :: "('a \<Rightarrow> 'a \<Rightarrow> bool) \<Rightarrow> 'a list \<Rightarrow> 'a list option" where
  "std_sort cmp xs =
     (if strict_weak_on cmp xs then Some (insertion_sort cmp xs) else None)"

text \<open>A table is in order when no record is before its predecessor.\<close>

fun ordered_by :: "('a \<Rightarrow> 'a \<Rightarrow> bool) \<Rightarrow> 'a list \<Rightarrow> bool" where
  "ordered_by cmp [] = True"
| "ordered_by cmp [x] = True"
| "ordered_by cmp (x # y # ys) = (\<not> cmp y x \<and> ordered_by cmp (y # ys))"

subsection \<open>predict\<close>


subsection \<open>Surfaces and the brightness of a frame\<close>

text \<open>
  Modelled from the spec: the pixel surface. \<^verbatim>\<open>Surface8u\<close> and its iterator are Cinder's
  and are not in the repository. A surface is its width, its height and its pixels, row
  after row, four 8-bit channels each. The iterator of \<^verbatim>\<open>processNextFrame\<close> visits every
  line and, in each line, every pixel. The sizes are natural numbers: the \<^verbatim>\<open>int\<close> product
  of width and height is taken not to overflow.
\<close>

record pixel =
  red :: "8 word"
  green :: "8 word"
  blue :: "8 word"
  alpha :: "8 word"

record surface =
  getWidth :: nat
  getHeight :: nat
  pixels :: "pixel list"

definition getPixel :: "surface \<Rightarrow> nat \<Rightarrow> nat \<Rightarrow> pixel" where
  "getPixel sfc x y = pixels sfc ! (y * getWidth sfc + x)"

text \<open>\<^verbatim>\<open>iter.r() + iter.g() + iter.b()\<close>: three \<^verbatim>\<open>uint8_t\<close>, added as \<^verbatim>\<open>int\<close>.\<close>

definition channel_sum :: "pixel \<Rightarrow> int" where
  "channel_sum p = uint (red p) + uint (green p) + uint (blue p)"

definition pixel_term :: "pixel \<Rightarrow> dbl" where
  "pixel_term p = ddiv (dbl_of_int (channel_sum p)) (dmul (Fin 3) (Fin 255))"

definition pixel_loop :: "surface \<Rightarrow> nat \<Rightarrow> dbl \<Rightarrow> dbl" where
  "pixel_loop sfc y brightness =
     fold (\<lambda>x b. dadd b (pixel_term (getPixel sfc x y))) [0..<getWidth sfc] brightness"

definition line_loop :: "surface \<Rightarrow> dbl \<Rightarrow> dbl" where
  "line_loop sfc brightness = fold (pixel_loop sfc) [0..<getHeight sfc] brightness"

text \<open>
  The brightness \<^verbatim>\<open>processNextFrame\<close> computes from the surface: the sum over the
  pixels, divided by width times height, whatever that product is.
\<close>

definition frame_brightness :: "surface \<Rightarrow> dbl" where
  "frame_brightness sfc =
     ddiv (line_loop sfc (Fin 0)) (dbl_of_int (int (getWidth sfc) * int (getHeight sfc)))"

text \<open>The pixels in the order of the iteration, and their mean as the specification has it.\<close>

definition surface_pixels :: "surface \<Rightarrow> pixel list" where
  "surface_pixels sfc =
     concat (map (\<lambda>y. map (\<lambda>x. getPixel sfc x y) [0..<getWidth sfc]) [0..<getHeight sfc])"

definition spec_mean :: "surface \<Rightarrow> real" where
  "spec_mean sfc =
     (\<Sum>p \<leftarrow> surface_pixels sfc. real_of_int (channel_sum p) / (3 * 255))
       / real (length (surface_pixels sfc))"

subsection \<open>The movie\<close>

text \<open>
  Modelled from the spec: the codec adapter. \<^verbatim>\<open>qtime::MovieSurface\<close> and
  \<^verbatim>\<open>qtime::MovieWriter\<close> are Cinder's and are not in the repository. A movie is its
  frames and the position of its play head; a frame that the decoder cannot deliver is
  \<open>None\<close>, and asking for it, or for a frame outside the movie, throws. Seeking and
  stepping move the play head and do not throw. The writer does not fail.
\<close>

datatype exn = OpenFailed | DecodeFailed int

record movie =
  frames :: "surface option list"
  position :: int

definition getNumFrames :: "movie \<Rightarrow> int" where
  "getNumFrames m = int (length (frames m))"

definition seekToFrame :: "movie \<Rightarrow> int \<Rightarrow> movie" where
  "seekToFrame m i = m\<lparr>position := i\<rparr>"

definition stepForward :: "movie \<Rightarrow> movie" where
  "stepForward m = m\<lparr>position := position m + 1\<rparr>"

definition getSurface :: "movie \<Rightarrow> exn + surface" where
  "getSurface m =
     (if 0 \<le> position m \<and> position m < getNumFrames m then
        (case frames m ! nat (position m) of
           Some sfc \<Rightarrow> Inr sfc
         | None \<Rightarrow> Inl (DecodeFailed (position m)))
      else Inl (DecodeFailed (position m)))"

subsection \<open>The offsets file\<close>

text \<open>
  A line of \<^verbatim>\<open>offsets.txt\<close> is written by \<^verbatim>\<open>fprintf(fd, "%d,%f\n", ...)\<close> and read by
  \<^verbatim>\<open>fscanf(fd, "%d,%f", ...)\<close>. The model keeps of a line what the two conversions
  carry: the integer, and the text of \<^verbatim>\<open>%f\<close>, which is a decimal with six fractional
  digits (held as its number of millionths), or \<^verbatim>\<open>inf\<close>, \<^verbatim>\<open>-inf\<close> or \<^verbatim>\<open>nan\<close>. \<^verbatim>\<open>%f\<close>
  rounds to the nearest millionth, a tie to the even one. \<^verbatim>\<open>fscanf\<close> stores the value in
  a \<^verbatim>\<open>float\<close>: the narrowing of the decimal to single precision is the parameter
  \<open>narrow\<close> of the reader.
\<close>

datatype ftext = Decimal int | InfText | MinusInfText | NanText

type_synonym offset_line = "int \<times> ftext"

definition round_half_even :: "real \<Rightarrow> int" where
  "round_half_even x =
     (let f = \<lfloor>x\<rfloor>; d = x - real_of_int f
      in if d < 1 / 2 then f else if 1 / 2 < d then f + 1 else if even f then f else f + 1)"

fun print_f :: "dbl \<Rightarrow> ftext" where
  "print_f (Fin x) = Decimal (round_half_even (x * 10 ^ 6))"
| "print_f PInf = InfText"
| "print_f NInf = MinusInfText"
| "print_f NaN = NanText"


definition print_line :: "FrameData \<Rightarrow> offset_line" where
  "print_line d = (mIndex d, print_f (mBrightness d))"


subsection \<open>The application\<close>

text \<open>
  The fields of \<^verbatim>\<open>LuminOrderApp\<close> that the passes read and write, and the two files
  beside the movie: \<^verbatim>\<open>offsets.txt\<close> and \<^verbatim>\<open>output.mov\<close>, \<open>None\<close> while they do not
  exist. The progress text \<^verbatim>\<open>mInfoText\<close>, the font and the thread are left out: no pass
  reads them.
\<close>

record app =
  mFrameSurface :: "surface option"
  mMovie :: "movie option"
  mFrameData :: "FrameData list"
  mFrameIndex :: int
  mSorted :: bool
  mSaved :: bool
  mMoviePath :: string
  offsets_txt :: "offset_line list option"
  output_mov :: "surface list option"

text \<open>
  How a member function ends: it returns, or an exception leaves it with the fields as
  they were when it was thrown, or its behaviour is undefined (a call on a movie that
  was reset, \<^verbatim>\<open>std::sort\<close> on a comparator that is no strict weak ordering, a file that
  is not there).
\<close>

datatype outcome = Returned app | Thrown exn app | Undefined

fun and_then :: "outcome \<Rightarrow> (app \<Rightarrow> outcome) \<Rightarrow> outcome" where
  "and_then (Returned s) f = f s"
| "and_then (Thrown e s) f = Thrown e s"
| "and_then Undefined f = Undefined"

text \<open>
  The fields once the application has started, with no file written yet. The constructor
  leaves \<^verbatim>\<open>mFrameIndex\<close> unset; it is 0 here, and \<^verbatim>\<open>processAllFrames\<close> sets it before it
  is read.
\<close>

definition started :: app where
  "started = \<lparr>mFrameSurface = None, mMovie = None, mFrameData = [], mFrameIndex = 0,
     mSorted = False, mSaved = False, mMoviePath = [],
     offsets_txt = None, output_mov = None\<rparr>"

text \<open>
  \<^verbatim>\<open>processNextFrame\<close> fetches the surface under the play head, adds its record to the
  table and steps forward. The value it returns, the brightness as a \<^verbatim>\<open>float\<close>, goes to
  the progress text only and is not kept.
\<close>

definition processNextFrame :: "app \<Rightarrow> outcome" where
  "processNextFrame s =
     (case mMovie s of
        None \<Rightarrow> Undefined
      | Some m \<Rightarrow>
          (case getSurface m of
             Inl e \<Rightarrow> Thrown e s
           | Inr sfc \<Rightarrow>
               Returned (s\<lparr>mFrameSurface := Some sfc,
                 mFrameData := mFrameData s @
                   [\<lparr>mIndex = mFrameIndex s, mBrightness = frame_brightness sfc\<rparr>],
                 mFrameIndex := mFrameIndex s + 1,
                 mMovie := Some (stepForward m)\<rparr>)))"

definition numFrames :: "app \<Rightarrow> int" where
  "numFrames s = (case mMovie s of None \<Rightarrow> 0 | Some m \<Rightarrow> getNumFrames m)"

lemma processNextFrame_numFrames:
  "processNextFrame s = Returned s' \<Longrightarrow> numFrames s' = numFrames s"
  by (auto simp: processNextFrame_def numFrames_def getNumFrames_def stepForward_def
      split: option.splits sum.splits)

text \<open>
  The loop of \<^verbatim>\<open>processAllFrames\<close>, from its counter \<open>i\<close> on; \<open>start\<close> is
  \<^verbatim>\<open>START_FRAME\<close>. The remaining time it predicts goes to the progress text only.
\<close>

function process_loop :: "int \<Rightarrow> int \<Rightarrow> app \<Rightarrow> outcome" where
  "process_loop start i s =
     (case mMovie s of
        None \<Rightarrow> Undefined
      | Some m \<Rightarrow>
          if i < getNumFrames m - start then
            (case processNextFrame s of
               Returned s' \<Rightarrow> process_loop start (i + 1) s'
             | Thrown e s' \<Rightarrow> Thrown e s'
             | Undefined \<Rightarrow> Undefined)
          else Returned s)"
  by pat_completeness auto
termination
proof (relation "measure (\<lambda>(start, i, s). nat (numFrames s - start - i))")
  show "wf (measure (\<lambda>(start, i, s). nat (numFrames s - start - i)))"
    by simp
next
  fix start i :: int and s s' :: app and m :: movie
  assume "mMovie s = Some m" "i < getNumFrames m - start" "processNextFrame s = Returned s'"
  then show "((start, i + 1, s'), (start, i, s))
      \<in> measure (\<lambda>(start, i, s). nat (numFrames s - start - i))"
    using processNextFrame_numFrames [of s s'] by (simp add: numFrames_def)
qed

definition processAllFrames :: "int \<Rightarrow> app \<Rightarrow> outcome" where
  "processAllFrames start s =
     (case mMovie s of
        None \<Rightarrow> Undefined
      | Some m \<Rightarrow>
          process_loop start 0 (s\<lparr>mMovie := Some (seekToFrame m start), mFrameIndex := start\<rparr>))"

definition sortMovie :: "app \<Rightarrow> outcome" where
  "sortMovie s =
     (case std_sort FrameBrightnessSort (mFrameData s) of
        None \<Rightarrow> Undefined
      | Some sorted_data \<Rightarrow>
          Returned (s\<lparr>mFrameData := sorted_data, mSorted := True, mFrameIndex := 0,
            offsets_txt := Some (map print_line sorted_data)\<rparr>))"


text \<open>The loop of \<^verbatim>\<open>saveMovie\<close> over the table: seek, fetch the surface, add it.\<close>

fun save_loop :: "FrameData list \<Rightarrow> app \<Rightarrow> outcome" where
  "save_loop [] s = Returned s"
| "save_loop (d # ds) s =
     (case mMovie s of
        None \<Rightarrow> Undefined
      | Some m \<Rightarrow>
          (case getSurface (seekToFrame m (mIndex d)) of
             Inl e \<Rightarrow> Thrown e (s\<lparr>mMovie := Some (seekToFrame m (mIndex d))\<rparr>)
           | Inr sfc \<Rightarrow>
               save_loop ds (s\<lparr>mMovie := Some (seekToFrame m (mIndex d)),
                 mFrameSurface := Some sfc,
                 output_mov := map_option (\<lambda>written. written @ [sfc]) (output_mov s)\<rparr>)))"

definition saveMovie :: "app \<Rightarrow> outcome" where
  "saveMovie s =
     (if \<not> mSorted s then Returned s
      else and_then (save_loop (mFrameData s) (s\<lparr>output_mov := Some []\<rparr>))
             (\<lambda>s'. Returned (s'\<lparr>mSaved := True\<rparr>)))"

text \<open>
  \<^verbatim>\<open>loadMovieFile\<close>: open the movie at \<^verbatim>\<open>mMoviePath\<close> (\<open>disk\<close> tells which paths hold a
  movie), run the two passes with the sort between them, and on any exception reset the
  movie. An undefined behaviour is not an exception: nothing catches it.
\<close>

definition loadMovieFile :: "int \<Rightarrow> (string \<Rightarrow> movie option) \<Rightarrow> app \<Rightarrow> app option" where
  "loadMovieFile start disk s =
     (case (case disk (mMoviePath s) of
              None \<Rightarrow> Thrown OpenFailed s
            | Some m \<Rightarrow>
                and_then (and_then (processAllFrames start (s\<lparr>mMovie := Some m\<rparr>)) sortMovie)
                  saveMovie) of
        Returned s' \<Rightarrow> Some s'
      | Thrown e s' \<Rightarrow> Some (s'\<lparr>mMovie := None\<rparr>)
      | Undefined \<Rightarrow> None)"

definition fileDrop :: "(string \<Rightarrow> movie option) \<Rightarrow> string \<Rightarrow> app \<Rightarrow> app option" where
  "fileDrop disk path s = loadMovieFile START_FRAME disk (s\<lparr>mMoviePath := path\<rparr>)"

section \<open>Properties\<close>

subsection \<open>The comparator\<close>

lemma ROUND_TO_Fin: "ROUND_TO = Fin (1 / 100)"
  by (simp add: ROUND_TO_def)

lemma bucket_Fin: "mBrightness a = Fin x \<Longrightarrow> bucket a = Fin (spec_bucket x)"
  by (simp add: bucket_def spec_bucket_def ROUND_TO_Fin)

lemma bucket_PInf: "mBrightness a = PInf \<Longrightarrow> bucket a = PInf"
  by (simp add: bucket_def ROUND_TO_Fin)

lemma bucket_NInf: "mBrightness a = NInf \<Longrightarrow> bucket a = NInf"
  by (simp add: bucket_def ROUND_TO_Fin)

lemma bucket_NaN: "mBrightness a = NaN \<Longrightarrow> bucket a = NaN"
  by (simp add: bucket_def ROUND_TO_Fin)

lemma bucket_NaN_iff: "bucket a = NaN \<longleftrightarrow> mBrightness a = NaN"
  by (cases "mBrightness a") (simp_all add: bucket_Fin bucket_PInf bucket_NInf bucket_NaN)

lemma dlt_dne: "dlt x y \<Longrightarrow> dne x y"
  by (cases x; cases y) simp_all

lemma dlt_irrefl: "\<not> dlt x x"
  by (cases x) simp_all

lemma dlt_asym: "dlt x y \<Longrightarrow> \<not> dlt y x"
  by (cases x; cases y) simp_all

lemma dlt_trans: "dlt x y \<Longrightarrow> dlt y z \<Longrightarrow> dlt x z"
  by (cases x; cases y; cases z) simp_all

lemma dne_iff: "x \<noteq> NaN \<Longrightarrow> y \<noteq> NaN \<Longrightarrow> dne x y \<longleftrightarrow> x \<noteq> y"
  by (cases x; cases y) simp_all

lemma deq_iff: "deq x y \<longleftrightarrow> x = y \<and> x \<noteq> NaN"
  by (cases x; cases y) (simp_all add: deq_def)

lemma dlt_total: "x \<noteq> NaN \<Longrightarrow> y \<noteq> NaN \<Longrightarrow> x \<noteq> y \<Longrightarrow> dlt x y \<or> dlt y x"
  by (cases x; cases y) auto

lemma dlt_not_NaN: "dlt x y \<Longrightarrow> x \<noteq> NaN \<and> y \<noteq> NaN"
  by (cases x; cases y) simp_all

lemma FBS_bucket:
  "FrameBrightnessSort a b =
     (if dne (bucket a) (bucket b) then dlt (bucket a) (bucket b) else mIndex a < mIndex b)"
  by (simp add: FrameBrightnessSort_def bucket_def)

lemma FBS_iff:
  "FrameBrightnessSort a b \<longleftrightarrow>
     dlt (bucket a) (bucket b) \<or> (deq (bucket a) (bucket b) \<and> mIndex a < mIndex b)"
proof (cases "dne (bucket a) (bucket b)")
  case True
  then show ?thesis by (simp only: FBS_bucket deq_def if_True simp_thms)
next
  case False
  then have "\<not> dlt (bucket a) (bucket b)" using dlt_dne by blast
  with False show ?thesis by (simp only: FBS_bucket deq_def if_False simp_thms)
qed

lemma deq_sym: "deq x y \<Longrightarrow> deq y x"
  by (cases x; cases y) (simp_all add: deq_def)

lemma deq_trans: "deq x y \<Longrightarrow> deq y z \<Longrightarrow> deq x z"
  by (cases x; cases y; cases z) (simp_all add: deq_def)

lemma deq_not_dlt: "deq x y \<Longrightarrow> \<not> dlt x y"
  by (cases x; cases y) (simp_all add: deq_def)

lemma deq_dlt: "deq x y \<Longrightarrow> dlt y z \<Longrightarrow> dlt x z"
  by (cases x; cases y; cases z) (simp_all add: deq_def)

lemma dlt_deq: "dlt x y \<Longrightarrow> deq y z \<Longrightarrow> dlt x z"
  by (cases x; cases y; cases z) (simp_all add: deq_def)

lemma dlt_or_deq: "x \<noteq> NaN \<Longrightarrow> y \<noteq> NaN \<Longrightarrow> dlt x y \<or> deq x y \<or> dlt y x"
  by (cases x; cases y) (auto simp: deq_def)

lemma FBS_irrefl: "\<not> FrameBrightnessSort a a"
  by (simp add: FBS_iff dlt_irrefl)

lemma FBS_asym: "FrameBrightnessSort a b \<Longrightarrow> \<not> FrameBrightnessSort b a"
  unfolding FBS_iff
  using dlt_asym [of "bucket a" "bucket b"] deq_not_dlt [of "bucket a" "bucket b"]
    deq_not_dlt [of "bucket b" "bucket a"] deq_sym [of "bucket a" "bucket b"]
    deq_sym [of "bucket b" "bucket a"] by fastforce

lemma FBS_trans:
  "FrameBrightnessSort a b \<Longrightarrow> FrameBrightnessSort b c \<Longrightarrow> FrameBrightnessSort a c"
  unfolding FBS_iff
  using dlt_trans [of "bucket a" "bucket b" "bucket c"]
    deq_trans [of "bucket a" "bucket b" "bucket c"]
    deq_dlt [of "bucket a" "bucket b" "bucket c"]
    dlt_deq [of "bucket a" "bucket b" "bucket c"] by fastforce

lemma FBS_total:
  assumes "mBrightness a \<noteq> NaN" "mBrightness b \<noteq> NaN" "mIndex a \<noteq> mIndex b"
  shows "FrameBrightnessSort a b \<or> FrameBrightnessSort b a"
proof -
  have "bucket a \<noteq> NaN" "bucket b \<noteq> NaN"
    using assms by (simp_all add: bucket_NaN_iff)
  then have "dlt (bucket a) (bucket b) \<or> deq (bucket a) (bucket b) \<or> dlt (bucket b) (bucket a)"
    by (rule dlt_or_deq)
  then show ?thesis
    unfolding FBS_iff using assms(3) deq_sym [of "bucket a" "bucket b"] by fastforce
qed

lemma FBS_not_NaN:
  assumes "FrameBrightnessSort a b"
  shows "mBrightness a \<noteq> NaN \<and> mBrightness b \<noteq> NaN"
proof -
  have "bucket a \<noteq> NaN \<and> bucket b \<noteq> NaN"
    using assms dlt_not_NaN [of "bucket a" "bucket b"] unfolding FBS_iff
    by (cases "bucket a"; cases "bucket b") (simp_all add: deq_def)
  then show ?thesis by (simp add: bucket_NaN_iff)
qed

subsection \<open>Insertion sort under a comparator\<close>

lemma mset_insert_by: "mset (insert_by cmp x ys) = add_mset x (mset ys)"
  by (induction ys) simp_all

lemma mset_insertion_sort: "mset (insertion_sort cmp xs) = mset xs"
  by (induction xs) (simp_all add: mset_insert_by)

lemma hd_insert_by: "hd (insert_by cmp x ys) = (if ys \<noteq> [] \<and> cmp (hd ys) x then hd ys else x)"
  by (cases ys) simp_all

lemma ordered_by_Cons:
  "ordered_by cmp (x # ys) \<longleftrightarrow> (ys = [] \<or> \<not> cmp (hd ys) x) \<and> ordered_by cmp ys"
  by (cases ys) auto

lemma insert_by_not_Nil: "insert_by cmp x ys \<noteq> []"
  by (cases ys) simp_all

lemma ordered_insert_by:
  assumes asym: "\<And>a b. cmp a b \<Longrightarrow> \<not> cmp b a"
  shows "ordered_by cmp ys \<Longrightarrow> ordered_by cmp (insert_by cmp x ys)"
proof (induction ys)
  case Nil
  then show ?case by simp
next
  case (Cons y ys)
  show ?case
  proof (cases "cmp y x")
    case True
    have "ordered_by cmp (insert_by cmp x ys)"
      using Cons by (simp add: ordered_by_Cons)
    moreover have "\<not> cmp (hd (insert_by cmp x ys)) y"
      using Cons.prems True asym by (auto simp: hd_insert_by ordered_by_Cons)
    ultimately show ?thesis using True
      by (simp add: ordered_by_Cons [of cmp y] insert_by_not_Nil)
  next
    case False
    with Cons.prems show ?thesis by simp
  qed
qed

lemma ordered_insertion_sort:
  assumes "\<And>a b. cmp a b \<Longrightarrow> \<not> cmp b a"
  shows "ordered_by cmp (insertion_sort cmp xs)"
  by (induction xs) (simp_all add: ordered_insert_by assms)

lemma ordered_by_sorted_wrt:
  assumes trans: "\<And>a b c. cmp a b \<Longrightarrow> cmp b c \<Longrightarrow> cmp a c"
  shows "(\<And>a b. a \<in> set xs \<Longrightarrow> b \<in> set xs \<Longrightarrow> a \<noteq> b \<Longrightarrow> cmp a b \<or> cmp b a)
    \<Longrightarrow> distinct xs \<Longrightarrow> ordered_by cmp xs \<Longrightarrow> sorted_wrt cmp xs"
proof (induction xs)
  case Nil
  show ?case by simp
next
  case (Cons x xs)
  have ord: "ordered_by cmp xs"
    using Cons.prems(3) by (cases xs) simp_all
  have dist: "distinct xs" and xn: "x \<notin> set xs"
    using Cons.prems(2) by simp_all
  have tot: "cmp a b \<or> cmp b a" if "a \<in> set xs" "b \<in> set xs" "a \<noteq> b" for a b
    using Cons.prems(1) [of a b] that by simp
  have tail: "sorted_wrt cmp xs"
    by (rule Cons.IH [OF tot dist ord])
  have "cmp x z" if z: "z \<in> set xs" for z
  proof (cases xs)
    case Nil
    with z show ?thesis by simp
  next
    case (Cons y ys)
    have "\<not> cmp y x"
      using Cons.prems(3) Cons by simp
    moreover have "cmp x y \<or> cmp y x"
      using Cons.prems(1) [of x y] xn Cons by auto
    ultimately have xy: "cmp x y" by blast
    show ?thesis
    proof (cases "z = y")
      case True
      with xy show ?thesis by simp
    next
      case False
      with z tail Cons have "cmp y z" by simp
      with xy show ?thesis by (rule trans)
    qed
  qed
  with tail show ?case by simp
qed

lemma sorted_wrt_unique:
  assumes irrefl: "\<And>a. \<not> cmp a a"
    and asym: "\<And>a b. cmp a b \<Longrightarrow> \<not> cmp b a"
  shows "sorted_wrt cmp xs \<Longrightarrow> sorted_wrt cmp ys \<Longrightarrow> mset xs = mset ys \<Longrightarrow> xs = ys"
proof (induction xs arbitrary: ys)
  case Nil
  then show ?case by simp
next
  case (Cons x xs)
  then obtain y ys' where ys: "ys = y # ys'" by (cases ys) auto
  have sets: "set (x # xs) = set (y # ys')"
    using Cons.prems(3) ys by (metis set_mset_mset)
  have "x = y"
  proof (rule ccontr)
    assume ne: "x \<noteq> y"
    with sets have "x \<in> set ys'" "y \<in> set xs" by auto
    with Cons.prems(1,2) ys have "cmp y x" "cmp x y" by auto
    with asym show False by blast
  qed
  with Cons ys show ?case by simp
qed

lemma ordered_by_nth:
  "ordered_by cmp xs \<longleftrightarrow> (\<forall>k. Suc k < length xs \<longrightarrow> \<not> cmp (xs ! Suc k) (xs ! k))"
proof (induction cmp xs rule: ordered_by.induct)
  case (1 cmp)
  show ?case by simp
next
  case (2 cmp x)
  show ?case by simp
next
  case (3 cmp x y ys)
  have "(\<forall>k. Suc k < length (x # y # ys) \<longrightarrow> \<not> cmp ((x # y # ys) ! Suc k) ((x # y # ys) ! k))
      \<longleftrightarrow> \<not> cmp y x \<and> (\<forall>k. Suc k < length (y # ys) \<longrightarrow> \<not> cmp ((y # ys) ! Suc k) ((y # ys) ! k))"
    (is "?L \<longleftrightarrow> ?R")
  proof
    assume L: ?L
    have "\<not> cmp y x" using L [rule_format, of 0] by simp
    moreover have "\<not> cmp ((y # ys) ! Suc k) ((y # ys) ! k)" if "Suc k < length (y # ys)" for k
      using L [rule_format, of "Suc k"] that by simp
    ultimately show ?R by blast
  next
    assume R: ?R
    show ?L
    proof (intro allI impI)
      fix k assume "Suc k < length (x # y # ys)"
      then show "\<not> cmp ((x # y # ys) ! Suc k) ((x # y # ys) ! k)"
        using R by (cases k) auto
    qed
  qed
  with 3 show ?case by simp
qed

lemma FBS_strict_weak_on: "strict_weak_on FrameBrightnessSort xs \<longleftrightarrow> 
  (\<forall>a \<in> set xs. \<forall>b \<in> set xs. \<forall>c \<in> set xs.
            incomparable FrameBrightnessSort a b \<and> incomparable FrameBrightnessSort b c 
  \<longrightarrow> incomparable FrameBrightnessSort a c)"
  unfolding strict_weak_on_def using FBS_irrefl FBS_trans by blast

lemma incomparable_no_NaN:
  assumes "mBrightness a \<noteq> NaN" "mBrightness b \<noteq> NaN"
  shows "incomparable FrameBrightnessSort a b \<longleftrightarrow> bucket a = bucket b \<and> mIndex a = mIndex b"
proof -
  have n: "bucket a \<noteq> NaN" "bucket b \<noteq> NaN"
    using assms by (simp_all add: bucket_NaN_iff)
  show ?thesis
  proof (cases "bucket a = bucket b")
    case True
    with n have "deq (bucket a) (bucket b)" "deq (bucket b) (bucket a)" "\<not> dlt (bucket a) (bucket b)"
       "\<not> dlt (bucket b) (bucket a)"
      by (simp_all add: deq_iff dlt_irrefl)
    with True show ?thesis unfolding incomparable_def FBS_iff by auto
  next
    case False
    then have "dlt (bucket a) (bucket b) \<or> dlt (bucket b) (bucket a)"
      using n dlt_total by blast
    with False show ?thesis unfolding incomparable_def FBS_iff by auto
  qed
qed

lemma strict_weak_no_NaN:
  assumes "\<forall>r \<in> set xs. mBrightness r \<noteq> NaN"
  shows "strict_weak_on FrameBrightnessSort xs"
  unfolding FBS_strict_weak_on
proof (intro ballI impI)
  fix a b c assume "a \<in> set xs" "b \<in> set xs" "c \<in> set xs"
    and "incomparable FrameBrightnessSort a b \<and> incomparable FrameBrightnessSort b c"
  with assms show "incomparable FrameBrightnessSort a c"
    by (simp add: incomparable_no_NaN)
qed

subsection \<open>C2: what the comparator compares\<close>



subsection \<open>One ordered permutation\<close>

lemma distinct_records:
  assumes "distinct (map mIndex xs)"
  shows "distinct xs"
  using assms by (rule distinct_map [THEN iffD1, THEN conjunct1])

lemma FBS_total_on:
  assumes nn: "\<forall>r \<in> set xs. mBrightness r \<noteq> NaN" and d: "distinct (map mIndex xs)"
    and "a \<in> set xs" "b \<in> set xs" "a \<noteq> b"
  shows "FrameBrightnessSort a b \<or> FrameBrightnessSort b a"
proof -
  have "inj_on mIndex (set xs)" using d by (simp add: distinct_map)
  with assms(3-5) have "mIndex a \<noteq> mIndex b" by (auto dest: inj_onD)
  with nn assms(3,4) show ?thesis by (simp add: FBS_total)
qed

lemma ordered_unique:
  assumes nn: "\<forall>r \<in> set xs. mBrightness r \<noteq> NaN" and d: "distinct (map mIndex xs)"
    and m: "mset ys = mset xs"
    and oy: "ordered_by FrameBrightnessSort ys" and ox: "ordered_by FrameBrightnessSort xs"
  shows "ys = xs"
proof -
  have sets: "set ys = set xs" using m by (metis set_mset_mset)
  have "mset (map mIndex ys) = mset (map mIndex xs)" using m by (metis mset_map)
  then have dy: "distinct (map mIndex ys)" using d by (metis distinct_count_atmost_1 mset_eq_imp_distinct_iff)
  have sx: "sorted_wrt FrameBrightnessSort xs"
    using FBS_trans FBS_total_on [OF nn d] distinct_records [OF d] ox
    by (rule ordered_by_sorted_wrt)
  have nny: "\<forall>r \<in> set ys. mBrightness r \<noteq> NaN" using nn sets by simp
  have sy: "sorted_wrt FrameBrightnessSort ys"
    using FBS_trans FBS_total_on [OF nny dy] distinct_records [OF dy] oy
    by (rule ordered_by_sorted_wrt)
  show ?thesis
    using FBS_irrefl FBS_asym sy sx m by (rule sorted_wrt_unique)
qed

lemma std_sort_unique:
  assumes nn: "\<forall>r \<in> set xs. mBrightness r \<noteq> NaN" and d: "distinct (map mIndex xs)"
    and m: "mset ys = mset xs" and oy: "ordered_by FrameBrightnessSort ys"
  shows "std_sort FrameBrightnessSort xs = Some ys"
proof -
  let ?zs = "insertion_sort FrameBrightnessSort xs"
  have mz: "mset ?zs = mset xs" by (rule mset_insertion_sort)
  have oz: "ordered_by FrameBrightnessSort ?zs"
    using FBS_asym by (rule ordered_insertion_sort)
  have setz: "set ?zs = set xs" using mz by (metis set_mset_mset)
  have "mset (map mIndex ?zs) = mset (map mIndex xs)" using mz by (metis mset_map)
  then have dz: "distinct (map mIndex ?zs)"
    using d by (metis mset_eq_imp_distinct_iff)
  have nnz: "\<forall>r \<in> set ?zs. mBrightness r \<noteq> NaN" using nn setz by simp
  have "ys = ?zs"
    using nnz dz _ oy oz by (rule ordered_unique) (simp add: m mz)
  then show ?thesis
    using strict_weak_no_NaN [OF nn] by (simp add: std_sort_def)
qed

lemma sortMovie_Returned:
  "sortMovie s = Returned s' \<longleftrightarrow>
     strict_weak_on FrameBrightnessSort (mFrameData s)
     \<and> s' = s\<lparr>mFrameData := insertion_sort FrameBrightnessSort (mFrameData s), mSorted := True,
         mFrameIndex := 0,
         offsets_txt := Some (map print_line (insertion_sort FrameBrightnessSort (mFrameData s)))\<rparr>"
  by (auto simp: sortMovie_def std_sort_def)


subsection \<open>C10: the comparator as an order\<close>

text \<open>
  Claim C10, amended. \<^verbatim>\<open>FrameBrightnessSort\<close> is irreflexive, asymmetric and transitive
  on all records. On two records of distinct indices whose brightness is not NaN, exactly
  one is before the other. A table of records with distinct indices and no NaN brightness
  has one permutation in which no record is before its predecessor, and \<^verbatim>\<open>std::sort\<close>
  returns it, whichever way it treats equivalent elements.
\<close>

theorem FrameBrightnessSort_strict_total_order:
  "\<not> FrameBrightnessSort a a
   \<and> (FrameBrightnessSort a b \<longrightarrow> \<not> FrameBrightnessSort b a)
   \<and> (FrameBrightnessSort a b \<and> FrameBrightnessSort b c \<longrightarrow> FrameBrightnessSort a c)
   \<and> (mBrightness a \<noteq> NaN \<and> mBrightness b \<noteq> NaN \<and> mIndex a \<noteq> mIndex b
        \<longrightarrow> (FrameBrightnessSort a b \<longleftrightarrow> \<not> FrameBrightnessSort b a))
   \<and> ((\<forall>r \<in> set xs. mBrightness r \<noteq> NaN) \<and> distinct (map mIndex xs)
        \<and> mset ys = mset xs
        \<and> (\<forall>k. Suc k < length ys \<longrightarrow> \<not> FrameBrightnessSort (ys ! Suc k) (ys ! k))
        \<longrightarrow> std_sort FrameBrightnessSort xs = Some ys)"
proof (intro conjI impI)
  show "\<not> FrameBrightnessSort a a" by (rule FBS_irrefl)
  show "\<not> FrameBrightnessSort b a" if "FrameBrightnessSort a b"
    using that by (rule FBS_asym)
  show "FrameBrightnessSort a c" if "FrameBrightnessSort a b \<and> FrameBrightnessSort b c"
    using that FBS_trans by blast
  show "FrameBrightnessSort a b \<longleftrightarrow> \<not> FrameBrightnessSort b a"
    if "mBrightness a \<noteq> NaN \<and> mBrightness b \<noteq> NaN \<and> mIndex a \<noteq> mIndex b"
    using that FBS_total [of a b] FBS_asym [of a b] by blast
  show "std_sort FrameBrightnessSort xs = Some ys"
    if "(\<forall>r \<in> set xs. mBrightness r \<noteq> NaN) \<and> distinct (map mIndex xs)
        \<and> mset ys = mset xs
        \<and> (\<forall>k. Suc k < length ys \<longrightarrow> \<not> FrameBrightnessSort (ys ! Suc k) (ys ! k))"
    using that by (intro std_sort_unique) (simp_all add: ordered_by_nth)
qed

theorem FrameBrightnessSort_strict_total_order_witness:
  "FrameBrightnessSort \<lparr>mIndex = 2, mBrightness = Fin (48 / 100)\<rparr>
       \<lparr>mIndex = 1, mBrightness = Fin (51 / 100)\<rparr>
   \<and> \<not> FrameBrightnessSort \<lparr>mIndex = 0, mBrightness = Fin (49 / 100)\<rparr>
       \<lparr>mIndex = 2, mBrightness = Fin (48 / 100)\<rparr>
   \<and> std_sort FrameBrightnessSort
        [\<lparr>mIndex = 0, mBrightness = Fin (49 / 100)\<rparr>, \<lparr>mIndex = 1, mBrightness = Fin (51 / 100)\<rparr>,
         \<lparr>mIndex = 2, mBrightness = Fin (48 / 100)\<rparr>]
       = Some [\<lparr>mIndex = 2, mBrightness = Fin (48 / 100)\<rparr>,
           \<lparr>mIndex = 0, mBrightness = Fin (49 / 100)\<rparr>, \<lparr>mIndex = 1, mBrightness = Fin (51 / 100)\<rparr>]"
proof -
  let ?r0 = "\<lparr>mIndex = 0, mBrightness = Fin (49 / 100)\<rparr>"
  let ?r1 = "\<lparr>mIndex = 1, mBrightness = Fin (51 / 100)\<rparr>"
  let ?r2 = "\<lparr>mIndex = 2, mBrightness = Fin (48 / 100)\<rparr>"
  note inst = FrameBrightnessSort_strict_total_order
    [of ?r2 ?r0 ?r1 "[?r0, ?r1, ?r2]" "[?r2, ?r0, ?r1]"]
  have lt20: "FrameBrightnessSort ?r2 ?r0"
    by (simp add: FrameBrightnessSort_def ROUND_TO_def c_round_def)
  have lt01: "FrameBrightnessSort ?r0 ?r1"
    by (simp add: FrameBrightnessSort_def ROUND_TO_def c_round_def)
  have h1: "mBrightness ?r2 \<noteq> NaN \<and> mBrightness ?r0 \<noteq> NaN \<and> mIndex ?r2 \<noteq> mIndex ?r0"
    by simp
  have adj: "\<forall>k. Suc k < length [?r2, ?r0, ?r1]
      \<longrightarrow> \<not> FrameBrightnessSort ([?r2, ?r0, ?r1] ! Suc k) ([?r2, ?r0, ?r1] ! k)"
    unfolding ordered_by_nth [symmetric]
    by (simp add: FrameBrightnessSort_def ROUND_TO_def c_round_def)
  have h2: "(\<forall>r \<in> set [?r0, ?r1, ?r2]. mBrightness r \<noteq> NaN)
      \<and> distinct (map mIndex [?r0, ?r1, ?r2])
      \<and> mset [?r2, ?r0, ?r1] = mset [?r0, ?r1, ?r2]"
    by simp
  have "FrameBrightnessSort ?r2 ?r1" using inst lt20 lt01 by blast
  moreover have "\<not> FrameBrightnessSort ?r0 ?r2" using inst lt20 h1 by blast
  moreover have "std_sort FrameBrightnessSort [?r0, ?r1, ?r2] = Some [?r2, ?r0, ?r1]"
    using inst h2 adj by blast
  ultimately show ?thesis by blast
qed


text \<open>
  A record whose brightness is NaN is neither before nor after a record of another index:
  its rounded brightness differs from every other, and is less than none.
\<close>

theorem FrameBrightnessSort_total_counterexample:
  "mIndex \<lparr>mIndex = 0, mBrightness = NaN\<rparr> \<noteq> mIndex \<lparr>mIndex = 1, mBrightness = Fin (1 / 2)\<rparr>
   \<and> \<not> FrameBrightnessSort \<lparr>mIndex = 0, mBrightness = NaN\<rparr> \<lparr>mIndex = 1, mBrightness = Fin (1 / 2)\<rparr>
   \<and> \<not> FrameBrightnessSort \<lparr>mIndex = 1, mBrightness = Fin (1 / 2)\<rparr> \<lparr>mIndex = 0, mBrightness = NaN\<rparr>"
  by (simp add: FrameBrightnessSort_def ROUND_TO_def c_round_def)

subsection \<open>The brightness of a surface\<close>

lemma pixel_term_Fin: "pixel_term p = Fin (real_of_int (channel_sum p) / (3 * 255))"
  by (simp add: pixel_term_def dbl_of_int_def)


lemma fold_dadd_Fin:
  "fold (\<lambda>x b. dadd b (Fin (f x))) xs (Fin a) = Fin (a + sum_list (map f xs))"
  by (induction xs arbitrary: a) (simp_all add: add.assoc)

lemma pixel_loop_Fin:
  "pixel_loop sfc y (Fin a) =
     Fin (a + (\<Sum>p \<leftarrow> map (\<lambda>x. getPixel sfc x y) [0..<getWidth sfc].
                 real_of_int (channel_sum p) / (3 * 255)))"
  unfolding pixel_loop_def pixel_term_Fin
  using fold_dadd_Fin [of "\<lambda>x. real_of_int (channel_sum (getPixel sfc x y)) / (3 * 255)"
      "[0..<getWidth sfc]" a]
  by (simp add: comp_def)

lemma fold_pixel_loop:
  "fold (pixel_loop sfc) ys (Fin a) =
     Fin (a + (\<Sum>p \<leftarrow> concat (map (\<lambda>y. map (\<lambda>x. getPixel sfc x y) [0..<getWidth sfc]) ys).
                 real_of_int (channel_sum p) / (3 * 255)))"
  by (induction ys arbitrary: a) (simp_all add: pixel_loop_Fin add.assoc)

lemma line_loop_Fin:
  "line_loop sfc (Fin 0) =
     Fin (\<Sum>p \<leftarrow> surface_pixels sfc. real_of_int (channel_sum p) / (3 * 255))"
  by (simp add: line_loop_def surface_pixels_def fold_pixel_loop)

lemma length_rows: "length (concat (map (\<lambda>y. map (f y) [0..<w]) ys)) = w * length ys"
  by (induction ys) simp_all

lemma length_surface_pixels: "length (surface_pixels sfc) = getWidth sfc * getHeight sfc"
  using length_rows [of "\<lambda>y x. getPixel sfc x y" "getWidth sfc" "[0..<getHeight sfc]"]
  by (simp add: surface_pixels_def)



lemma frame_brightness_Fin:
  assumes "0 < getWidth sfc * getHeight sfc"
  shows "frame_brightness sfc = Fin (spec_mean sfc)"
proof -
  have "real_of_int (int (getWidth sfc) * int (getHeight sfc)) \<noteq> 0"
    using assms by simp
  then show ?thesis
    by (simp add: frame_brightness_def line_loop_Fin dbl_of_int_def spec_mean_def
        length_surface_pixels)
qed


lemma frame_brightness_zero:
  assumes "getWidth sfc * getHeight sfc = 0"
  shows "frame_brightness sfc = NaN"
proof -
  have "length (surface_pixels sfc) = 0"
    using assms by (simp add: length_surface_pixels)
  then have "surface_pixels sfc = []" by simp
  then have "line_loop sfc (Fin 0) = Fin 0" by (simp add: line_loop_Fin)
  moreover have "dbl_of_int (int (getWidth sfc) * int (getHeight sfc)) = Fin 0"
    using assms by (auto simp: dbl_of_int_def)
  ultimately show ?thesis by (simp add: frame_brightness_def)
qed

subsection \<open>C4: the brightness is the mean of the channels\<close>



subsection \<open>C8: a surface with no pixel\<close>

text \<open>
  Claim C8, amended. On a surface of area zero the computation does not fail: the sum over
  no pixel is 0, the division by the pixel count 0 is carried out and gives NaN, and
  \<^verbatim>\<open>processNextFrame\<close> returns with a record of that brightness added to the table.
\<close>

theorem zero_area_surface_gives_NaN:
  assumes "getWidth sfc * getHeight sfc = 0"
  shows "frame_brightness sfc = NaN
    \<and> (mMovie s = Some m \<and> getSurface m = Inr sfc \<longrightarrow>
         (\<exists>s'. processNextFrame s = Returned s'
            \<and> mFrameData s' = mFrameData s @ [\<lparr>mIndex = mFrameIndex s, mBrightness = NaN\<rparr>]))"
  using frame_brightness_zero [OF assms] by (auto simp: processNextFrame_def)

theorem zero_area_surface_gives_NaN_witness:
  "frame_brightness \<lparr>getWidth = 0, getHeight = 480, pixels = []\<rparr> = NaN
   \<and> (\<exists>s'. processNextFrame (started\<lparr>mMovie := Some \<lparr>frames =
          [Some \<lparr>getWidth = 0, getHeight = 480, pixels = []\<rparr>], position = 0\<rparr>\<rparr>) = Returned s'
        \<and> mFrameData s' = [\<lparr>mIndex = 0, mBrightness = NaN\<rparr>])"
proof -
  let ?sfc = "\<lparr>getWidth = 0, getHeight = 480, pixels = []\<rparr>"
  let ?m = "\<lparr>frames = [Some ?sfc], position = 0\<rparr>"
  let ?s = "started\<lparr>mMovie := Some ?m\<rparr>"
  have z: "getWidth ?sfc * getHeight ?sfc = 0" by simp
  have g: "mMovie ?s = Some ?m \<and> getSurface ?m = Inr ?sfc"
    by (simp add: getSurface_def getNumFrames_def)
  have e: "mFrameData ?s = []" "mFrameIndex ?s = 0" by (simp_all add: started_def)
  show ?thesis
    using zero_area_surface_gives_NaN [OF z, of ?s ?m] g unfolding e by simp
qed

text \<open>
  On a movie whose one frame has width and height 0, \<^verbatim>\<open>processNextFrame\<close> returns, and
  the table holds the record of index 0 with brightness NaN: no error is raised.
\<close>

theorem zero_area_surface_counterexample:
  "processNextFrame (started\<lparr>mMovie := Some \<lparr>frames =
       [Some \<lparr>getWidth = 0, getHeight = 0, pixels = []\<rparr>], position = 0\<rparr>\<rparr>)
   = Returned (started\<lparr>mFrameSurface := Some \<lparr>getWidth = 0, getHeight = 0, pixels = []\<rparr>,
       mMovie := Some \<lparr>frames = [Some \<lparr>getWidth = 0, getHeight = 0, pixels = []\<rparr>], position = 1\<rparr>,
       mFrameData := [\<lparr>mIndex = 0, mBrightness = NaN\<rparr>], mFrameIndex := 1\<rparr>)"
  by (simp add: processNextFrame_def getSurface_def getNumFrames_def started_def stepForward_def
      frame_brightness_def line_loop_def dbl_of_int_def)

subsection \<open>C9: the predicted remaining time\<close>




subsection \<open>Pass 1\<close>

declare process_loop.simps [simp del]

lemma getSurface_Inr:
  "getSurface m = Inr sfc \<longleftrightarrow>
     0 \<le> position m \<and> position m < getNumFrames m \<and> frames m ! nat (position m) = Some sfc"
  by (auto simp: getSurface_def split: option.splits)

lemma processNextFrame_Returned:
  assumes "mMovie s = Some m"
  shows "processNextFrame s = Returned s1 \<longleftrightarrow>
     (\<exists>sfc. getSurface m = Inr sfc
        \<and> s1 = s\<lparr>mFrameSurface := Some sfc,
             mFrameData := mFrameData s @
               [\<lparr>mIndex = mFrameIndex s, mBrightness = frame_brightness sfc\<rparr>],
             mFrameIndex := mFrameIndex s + 1,
             mMovie := Some (stepForward m)\<rparr>)"
  using assms by (auto simp: processNextFrame_def split: sum.splits)

lemma processNextFrame_Thrown:
  assumes "mMovie s = Some m"
  shows "processNextFrame s = Thrown e s1 \<longleftrightarrow> getSurface m = Inl e \<and> s1 = s"
  using assms by (auto simp: processNextFrame_def split: sum.splits)

lemma process_loop_step:
  "mMovie s = Some m \<Longrightarrow> i < getNumFrames m - start \<Longrightarrow> processNextFrame s = Returned s1
    \<Longrightarrow> process_loop start i s = process_loop start (i + 1) s1"
  by (subst process_loop.simps) simp

lemma process_loop_throw:
  "mMovie s = Some m \<Longrightarrow> i < getNumFrames m - start \<Longrightarrow> processNextFrame s = Thrown e s1
    \<Longrightarrow> process_loop start i s = Thrown e s1"
  by (subst process_loop.simps) simp

lemma process_loop_end:
  "mMovie s = Some m \<Longrightarrow> \<not> i < getNumFrames m - start \<Longrightarrow> process_loop start i s = Returned s"
  by (subst process_loop.simps) simp

lemma upt_shift: "map (\<lambda>k. a + int k) [0..<Suc n] = a # map (\<lambda>k. (a + 1) + int k) [0..<n]"
proof -
  have "[0..<Suc n] = 0 # [Suc 0..<Suc n]"
    by (rule upt_conv_Cons) simp
  also have "[Suc 0..<Suc n] = map Suc [0..<n]"
    by (rule map_Suc_upt [symmetric])
  finally have "[0..<Suc n] = 0 # map Suc [0..<n]" .
  then show ?thesis by (simp add: comp_def add.assoc add.commute del: upt_Suc)
qed

lemma process_loop_Returned:
  "process_loop start i s = Returned s' \<Longrightarrow> mMovie s = Some m \<Longrightarrow>
    (\<exists>m'. mMovie s' = Some m' \<and> frames m' = frames m)
    \<and> map mIndex (mFrameData s') = map mIndex (mFrameData s)
         @ map (\<lambda>k. mFrameIndex s + int k) [0..<nat (getNumFrames m - start - i)]
    \<and> (\<forall>k < nat (getNumFrames m - start - i).
          0 \<le> position m + int k \<and> position m + int k < getNumFrames m
          \<and> frames m ! nat (position m + int k) \<noteq> None)
    \<and> (\<forall>d \<in> set (mFrameData s'). d \<in> set (mFrameData s)
          \<or> (\<exists>sfc. Some sfc \<in> set (frames m) \<and> mBrightness d = frame_brightness sfc))
    \<and> mSorted s' = mSorted s \<and> mSaved s' = mSaved s \<and> mMoviePath s' = mMoviePath s
    \<and> offsets_txt s' = offsets_txt s \<and> output_mov s' = output_mov s"
proof (induction start i s arbitrary: m rule: process_loop.induct)
  case (1 start i s)
  show ?case
  proof (cases "i < getNumFrames m - start")
    case False
    then have "s' = s"
      using "1.prems" process_loop_end [of s m i start] by simp
    with False "1.prems" show ?thesis by simp
  next
    case True
    show ?thesis
    proof (cases "processNextFrame s")
      case (Returned s1)
      then obtain sfc where g: "getSurface m = Inr sfc"
        and s1: "s1 = s\<lparr>mFrameSurface := Some sfc,
             mFrameData := mFrameData s @
               [\<lparr>mIndex = mFrameIndex s, mBrightness = frame_brightness sfc\<rparr>],
             mFrameIndex := mFrameIndex s + 1,
             mMovie := Some (stepForward m)\<rparr>"
        using processNextFrame_Returned [OF "1.prems"(2)] by blast
      have m1: "mMovie s1 = Some (stepForward m)" by (simp add: s1)
      have run: "process_loop start (i + 1) s1 = Returned s'"
        using process_loop_step [OF "1.prems"(2) True Returned] "1.prems"(1) by simp
      note IH = "1.IH" [OF "1.prems"(2) True Returned run m1]
      have N: "getNumFrames (stepForward m) = getNumFrames m"
        by (simp add: getNumFrames_def stepForward_def)
      have P: "position (stepForward m) = position m + 1" "frames (stepForward m) = frames m"
        by (simp_all add: stepForward_def)
      obtain n where n: "nat (getNumFrames m - start - i) = Suc n"
        "nat (getNumFrames m - start - (i + 1)) = n"
      proof
        show "nat (getNumFrames m - start - i) = Suc (nat (getNumFrames m - start - (i + 1)))"
          using True by linarith
        show "nat (getNumFrames m - start - (i + 1)) = nat (getNumFrames m - start - (i + 1))"
          by simp
      qed
      have idx: "map mIndex (mFrameData s') = map mIndex (mFrameData s)
         @ map (\<lambda>k. mFrameIndex s + int k) [0..<Suc n]"
        using IH unfolding N n upt_shift by (simp add: s1)
      have fr: "0 \<le> position m + int k \<and> position m + int k < getNumFrames m
          \<and> frames m ! nat (position m + int k) \<noteq> None" if "k < Suc n" for k
      proof (cases k)
        case 0
        with g show ?thesis by (simp add: getSurface_Inr)
      next
        case (Suc k')
        with that have "k' < n" by simp
        then have "0 \<le> position m + 1 + int k' \<and> position m + 1 + int k' < getNumFrames m
          \<and> frames m ! nat (position m + 1 + int k') \<noteq> None"
          using IH unfolding N n P by blast
        moreover have "position m + int k = position m + 1 + int k'" by (simp add: Suc)
        ultimately show ?thesis by (simp only: simp_thms)
      qed
      have "nat (position m) < length (frames m)" "frames m ! nat (position m) = Some sfc"
        using g by (auto simp: getSurface_Inr getNumFrames_def)
      then have "Some sfc \<in> set (frames m)"
        by (metis nth_mem)
      moreover have bIH: "\<forall>d \<in> set (mFrameData s'). d \<in> set (mFrameData s1)
          \<or> (\<exists>sfc. Some sfc \<in> set (frames m) \<and> mBrightness d = frame_brightness sfc)"
        using IH unfolding P by blast
      moreover have "set (mFrameData s1) = insert
          \<lparr>mIndex = mFrameIndex s, mBrightness = frame_brightness sfc\<rparr> (set (mFrameData s))"
        by (simp add: s1)
      ultimately have br: "\<forall>d \<in> set (mFrameData s'). d \<in> set (mFrameData s)
          \<or> (\<exists>sfc. Some sfc \<in> set (frames m) \<and> mBrightness d = frame_brightness sfc)"
        by (metis FrameData.select_convs(2) insertE)
      have rest: "(\<exists>m'. mMovie s' = Some m' \<and> frames m' = frames m)
         \<and> mSorted s' = mSorted s \<and> mSaved s' = mSaved s \<and> mMoviePath s' = mMoviePath s
         \<and> offsets_txt s' = offsets_txt s \<and> output_mov s' = output_mov s"
        using IH unfolding P by (simp add: s1)
      show ?thesis using idx fr br rest unfolding n by blast
    next
      case (Thrown e s1)
      then show ?thesis
        using process_loop_throw [OF "1.prems"(2) True Thrown] "1.prems"(1) by simp
    next
      case Undefined
      then show ?thesis
        using "1.prems" True by (simp add: processNextFrame_def split: sum.splits)
    qed
  qed
qed


lemma map_int_upt: "map (\<lambda>k. a + int k) [0..<n] = [a..a + int n - 1]"
proof (induction n)
  case 0
  show ?case by simp
next
  case (Suc n)
  have "[a..a + int (Suc n) - 1] = [a..a + int n - 1] @ [a + int n]"
    using upto_rec2 [of a "a + int n"] by simp
  with Suc show ?case by simp
qed

lemma processAllFrames_Returned:
  assumes "mMovie s = Some m" "processAllFrames start s = Returned s'"
  shows "(\<exists>m'. mMovie s' = Some m' \<and> frames m' = frames m)
    \<and> map mIndex (mFrameData s') = map mIndex (mFrameData s) @ [start..getNumFrames m - 1]
    \<and> (\<forall>k. start \<le> k \<and> k < getNumFrames m \<longrightarrow> 0 \<le> k \<and> frames m ! nat k \<noteq> None)
    \<and> (\<forall>d \<in> set (mFrameData s'). d \<in> set (mFrameData s)
          \<or> (\<exists>sfc. Some sfc \<in> set (frames m) \<and> mBrightness d = frame_brightness sfc))
    \<and> mSorted s' = mSorted s \<and> mSaved s' = mSaved s \<and> mMoviePath s' = mMoviePath s
    \<and> offsets_txt s' = offsets_txt s \<and> output_mov s' = output_mov s"
proof -
  let ?m0 = "seekToFrame m start"
  let ?s0 = "s\<lparr>mMovie := Some ?m0, mFrameIndex := start\<rparr>"
  have run: "process_loop start 0 ?s0 = Returned s'"
    using assms by (simp add: processAllFrames_def)
  have m0: "mMovie ?s0 = Some ?m0" by simp
  have N: "getNumFrames ?m0 = getNumFrames m" "position ?m0 = start" "frames ?m0 = frames m"
    by (simp_all add: getNumFrames_def seekToFrame_def)
  note L = process_loop_Returned [OF run m0, unfolded N]
  have "map (\<lambda>k. start + int k) [0..<nat (getNumFrames m - start - 0)]
      = [start..getNumFrames m - 1]"
  proof (cases "start \<le> getNumFrames m")
    case True
    then show ?thesis using map_int_upt [of start "nat (getNumFrames m - start)"] by simp
  next
    case False
    then show ?thesis by simp
  qed
  then have idx: "map mIndex (mFrameData s') = map mIndex (mFrameData s) @ [start..getNumFrames m - 1]"
    using L by simp
  have fr: "0 \<le> k \<and> frames m ! nat k \<noteq> None" if "start \<le> k \<and> k < getNumFrames m" for k
  proof -
    have "nat (k - start) < nat (getNumFrames m - start - 0)" using that by simp
    then have "0 \<le> start + int (nat (k - start))
        \<and> frames m ! nat (start + int (nat (k - start))) \<noteq> None"
      using L by blast
    moreover have "start + int (nat (k - start)) = k" using that by simp
    ultimately show ?thesis by (simp only: simp_thms)
  qed
  show ?thesis using idx fr L by simp
qed

lemma process_loop_returns:
  "mMovie s = Some m \<Longrightarrow> n = nat (getNumFrames m - start - i) \<Longrightarrow>
    (\<forall>k < n. 0 \<le> position m + int k \<and> position m + int k < getNumFrames m
        \<and> frames m ! nat (position m + int k) \<noteq> None)
    \<Longrightarrow> \<exists>s'. process_loop start i s = Returned s'"
proof (induction n arbitrary: i s m)
  case 0
  then have "\<not> i < getNumFrames m - start" by simp
  with "0.prems"(1) show ?case by (simp add: process_loop_end)
next
  case (Suc n)
  have lt: "i < getNumFrames m - start" using Suc.prems(2) by linarith
  have "0 \<le> position m \<and> position m < getNumFrames m \<and> frames m ! nat (position m) \<noteq> None"
    using Suc.prems(3) [rule_format, of 0] by simp
  then obtain sfc where g: "getSurface m = Inr sfc"
    by (auto simp: getSurface_Inr)
  define s1 where "s1 = s\<lparr>mFrameSurface := Some sfc,
             mFrameData := mFrameData s @
               [\<lparr>mIndex = mFrameIndex s, mBrightness = frame_brightness sfc\<rparr>],
             mFrameIndex := mFrameIndex s + 1,
             mMovie := Some (stepForward m)\<rparr>"
  have r: "processNextFrame s = Returned s1"
    using processNextFrame_Returned [OF Suc.prems(1)] g s1_def by blast
  have m1: "mMovie s1 = Some (stepForward m)" by (simp add: s1_def)
  have N: "getNumFrames (stepForward m) = getNumFrames m"
    "position (stepForward m) = position m + 1" "frames (stepForward m) = frames m"
    by (simp_all add: getNumFrames_def stepForward_def)
  have n: "n = nat (getNumFrames (stepForward m) - start - (i + 1))"
    using Suc.prems(2) unfolding N by linarith
  have fr: "\<forall>k < n. 0 \<le> position (stepForward m) + int k
      \<and> position (stepForward m) + int k < getNumFrames (stepForward m)
      \<and> frames (stepForward m) ! nat (position (stepForward m) + int k) \<noteq> None"
  proof (intro allI impI)
    fix k assume "k < n"
    then have "Suc k < Suc n" by simp
    then have "0 \<le> position m + int (Suc k) \<and> position m + int (Suc k) < getNumFrames m
        \<and> frames m ! nat (position m + int (Suc k)) \<noteq> None"
      using Suc.prems(3) by blast
    moreover have "position m + int (Suc k) = position m + 1 + int k" by simp
    ultimately show "0 \<le> position (stepForward m) + int k
      \<and> position (stepForward m) + int k < getNumFrames (stepForward m)
      \<and> frames (stepForward m) ! nat (position (stepForward m) + int k) \<noteq> None"
      unfolding N by (simp only: simp_thms)
  qed
  obtain s' where "process_loop start (i + 1) s1 = Returned s'"
    using Suc.IH [OF m1 n fr] by blast
  then show ?case
    using process_loop_step [OF Suc.prems(1) lt r] by simp
qed

lemma processAllFrames_returns:
  assumes "mMovie s = Some m" "0 \<le> start"
    "\<forall>k. start \<le> k \<and> k < getNumFrames m \<longrightarrow> frames m ! nat k \<noteq> None"
  shows "\<exists>s'. processAllFrames start s = Returned s'"
proof -
  let ?m0 = "seekToFrame m start"
  let ?s0 = "s\<lparr>mMovie := Some ?m0, mFrameIndex := start\<rparr>"
  have m0: "mMovie ?s0 = Some ?m0" by simp
  have N: "getNumFrames ?m0 = getNumFrames m" "position ?m0 = start" "frames ?m0 = frames m"
    by (simp_all add: getNumFrames_def seekToFrame_def)
  have "\<forall>k < nat (getNumFrames ?m0 - start - 0). 0 \<le> position ?m0 + int k
      \<and> position ?m0 + int k < getNumFrames ?m0
      \<and> frames ?m0 ! nat (position ?m0 + int k) \<noteq> None"
    unfolding N using assms(2,3) by auto
  then have "\<exists>s'. process_loop start 0 ?s0 = Returned s'"
    using process_loop_returns [OF m0 refl] by blast
  then show ?thesis using assms(1) by (simp add: processAllFrames_def)
qed

subsection \<open>C5: the table after pass 1\<close>




subsection \<open>C1: sortMovie\<close>




subsection \<open>A frame that does not decode\<close>

lemma getSurface_Inl:
  "0 \<le> position m \<Longrightarrow> position m < getNumFrames m \<Longrightarrow> frames m ! nat (position m) = None
    \<Longrightarrow> getSurface m = Inl (DecodeFailed (position m))"
  by (simp add: getSurface_def)

lemma process_loop_Thrown_at:
  "mMovie s = Some m \<Longrightarrow> n = nat (j - position m) \<Longrightarrow> 0 \<le> position m \<Longrightarrow> position m \<le> j
    \<Longrightarrow> j < getNumFrames m \<Longrightarrow> frames m ! nat j = None
    \<Longrightarrow> (\<forall>k. position m \<le> k \<and> k < j \<longrightarrow> frames m ! nat k \<noteq> None)
    \<Longrightarrow> i + (j - position m) < getNumFrames m - start
    \<Longrightarrow> \<exists>s'. process_loop start i s = Thrown (DecodeFailed j) s'
          \<and> map mIndex (mFrameData s') = map mIndex (mFrameData s)
               @ map (\<lambda>k. mFrameIndex s + int k) [0..<n]
          \<and> mSorted s' = mSorted s \<and> mSaved s' = mSaved s
          \<and> offsets_txt s' = offsets_txt s \<and> output_mov s' = output_mov s"
proof (induction n arbitrary: i s m)
  case 0
  then have p: "position m = j" by simp
  have lt: "i < getNumFrames m - start" using "0.prems"(8) p by simp
  have "getSurface m = Inl (DecodeFailed j)"
    using getSurface_Inl [of m] "0.prems" p by simp
  then have "processNextFrame s = Thrown (DecodeFailed j) s"
    using processNextFrame_Thrown [OF "0.prems"(1)] by simp
  then have "process_loop start i s = Thrown (DecodeFailed j) s"
    using process_loop_throw [OF "0.prems"(1) lt] by simp
  then show ?case by simp
next
  case (Suc n)
  have pj: "position m < j" using Suc.prems(2) by linarith
  have lt: "i < getNumFrames m - start" using Suc.prems(8) pj by linarith
  have "frames m ! nat (position m) \<noteq> None" using Suc.prems(7) pj by simp
  then obtain sfc where g: "getSurface m = Inr sfc"
    using Suc.prems(3,5) pj by (auto simp: getSurface_Inr)
  define s1 where "s1 = s\<lparr>mFrameSurface := Some sfc,
             mFrameData := mFrameData s @
               [\<lparr>mIndex = mFrameIndex s, mBrightness = frame_brightness sfc\<rparr>],
             mFrameIndex := mFrameIndex s + 1,
             mMovie := Some (stepForward m)\<rparr>"
  have r: "processNextFrame s = Returned s1"
    using processNextFrame_Returned [OF Suc.prems(1)] g s1_def by blast
  have m1: "mMovie s1 = Some (stepForward m)" by (simp add: s1_def)
  have N: "getNumFrames (stepForward m) = getNumFrames m"
    "position (stepForward m) = position m + 1" "frames (stepForward m) = frames m"
    by (simp_all add: getNumFrames_def stepForward_def)
  have n: "n = nat (j - position (stepForward m))"
    using Suc.prems(2) unfolding N by linarith
  have c: "0 \<le> position (stepForward m)" "position (stepForward m) \<le> j"
    "j < getNumFrames (stepForward m)" "frames (stepForward m) ! nat j = None"
    "\<forall>k. position (stepForward m) \<le> k \<and> k < j \<longrightarrow> frames (stepForward m) ! nat k \<noteq> None"
    "(i + 1) + (j - position (stepForward m)) < getNumFrames (stepForward m) - start"
    using Suc.prems(3-8) pj unfolding N by simp_all
  obtain s' where s': "process_loop start (i + 1) s1 = Thrown (DecodeFailed j) s'"
      "map mIndex (mFrameData s') = map mIndex (mFrameData s1)
               @ map (\<lambda>k. mFrameIndex s1 + int k) [0..<n]"
      "mSorted s' = mSorted s1" "mSaved s' = mSaved s1"
      "offsets_txt s' = offsets_txt s1" "output_mov s' = output_mov s1"
    using Suc.IH [OF m1 n c] by blast
  have "process_loop start i s = Thrown (DecodeFailed j) s'"
    using process_loop_step [OF Suc.prems(1) lt r] s'(1) by simp
  moreover have "map mIndex (mFrameData s') = map mIndex (mFrameData s)
               @ map (\<lambda>k. mFrameIndex s + int k) [0..<Suc n]"
    unfolding upt_shift s'(2) by (simp add: s1_def)
  moreover have "mSorted s' = mSorted s \<and> mSaved s' = mSaved s
          \<and> offsets_txt s' = offsets_txt s \<and> output_mov s' = output_mov s"
    using s'(3-6) by (simp add: s1_def)
  ultimately show ?case by blast
qed

lemma loadMovieFile_pass_1_throws:
  assumes "disk (mMoviePath s) = Some m"
    "processAllFrames start (s\<lparr>mMovie := Some m\<rparr>) = Thrown e s1"
  shows "loadMovieFile start disk s = Some (s1\<lparr>mMovie := None\<rparr>)"
  using assms by (simp add: loadMovieFile_def)

subsection \<open>C7: a decode error in pass 1\<close>

text \<open>
  Claim C7, amended. When the frame of index \<open>j\<close> does not decode and the frames from
  \<^verbatim>\<open>START_FRAME\<close> up to \<open>j\<close> do, \<^verbatim>\<open>loadMovieFile\<close> ends with the exception caught: the movie
  is reset, \<^verbatim>\<open>mSorted\<close> and \<^verbatim>\<open>mSaved\<close> are as before, and neither \<^verbatim>\<open>offsets.txt\<close> nor
  \<^verbatim>\<open>output.mov\<close> is written. The records of the frames \<^verbatim>\<open>START_FRAME\<close> to \<open>j - 1\<close>,
  added before the error, stay in the table.
\<close>

theorem decode_failure_in_pass_1:
  assumes "disk (mMoviePath s) = Some m" "0 \<le> start" "start \<le> j" "j < getNumFrames m"
    "frames m ! nat j = None" "\<forall>k. start \<le> k \<and> k < j \<longrightarrow> frames m ! nat k \<noteq> None"
  shows "\<exists>s'. loadMovieFile start disk s = Some s'
    \<and> mMovie s' = None \<and> mSorted s' = mSorted s \<and> mSaved s' = mSaved s
    \<and> offsets_txt s' = offsets_txt s \<and> output_mov s' = output_mov s
    \<and> map mIndex (mFrameData s') = map mIndex (mFrameData s) @ [start..j - 1]"
proof -
  let ?m0 = "seekToFrame m start"
  let ?s0 = "s\<lparr>mMovie := Some m, mMovie := Some ?m0, mFrameIndex := start\<rparr>"
  have m0: "mMovie ?s0 = Some ?m0" by simp
  have N: "getNumFrames ?m0 = getNumFrames m" "position ?m0 = start" "frames ?m0 = frames m"
    by (simp_all add: getNumFrames_def seekToFrame_def)
  have c: "0 \<le> position ?m0" "position ?m0 \<le> j" "j < getNumFrames ?m0"
    "frames ?m0 ! nat j = None"
    "\<forall>k. position ?m0 \<le> k \<and> k < j \<longrightarrow> frames ?m0 ! nat k \<noteq> None"
    "0 + (j - position ?m0) < getNumFrames ?m0 - start"
    using assms(2-6) unfolding N by simp_all
  obtain s1 where s1: "process_loop start 0 ?s0 = Thrown (DecodeFailed j) s1"
      "map mIndex (mFrameData s1) = map mIndex (mFrameData ?s0)
               @ map (\<lambda>k. mFrameIndex ?s0 + int k) [0..<nat (j - position ?m0)]"
      "mSorted s1 = mSorted ?s0" "mSaved s1 = mSaved ?s0"
      "offsets_txt s1 = offsets_txt ?s0" "output_mov s1 = output_mov ?s0"
    using process_loop_Thrown_at [OF m0 refl c] by blast
  have "processAllFrames start (s\<lparr>mMovie := Some m\<rparr>) = Thrown (DecodeFailed j) s1"
    using s1(1) by (simp add: processAllFrames_def)
  then have l: "loadMovieFile start disk s = Some (s1\<lparr>mMovie := None\<rparr>)"
    using assms(1) by (rule loadMovieFile_pass_1_throws [rotated])
  have "map (\<lambda>k. start + int k) [0..<nat (j - start)] = [start..j - 1]"
    using map_int_upt [of start "nat (j - start)"] assms(3) by simp
  then have "map mIndex (mFrameData s1) = map mIndex (mFrameData s) @ [start..j - 1]"
    using s1(2) unfolding N by simp
  with l s1(3-6) show ?thesis by simp
qed


theorem decode_failure_in_pass_1_witness:
  "\<exists>s'. loadMovieFile START_FRAME
        [''clip.mov'' \<mapsto> \<lparr>frames =
          [Some \<lparr>getWidth = 1, getHeight = 1, pixels = [\<lparr>red = 255, green = 255, blue = 255, alpha = 255\<rparr>]\<rparr>,
           Some \<lparr>getWidth = 1, getHeight = 1, pixels = [\<lparr>red = 0, green = 0, blue = 0, alpha = 255\<rparr>]\<rparr>,
           None],
          position = 0\<rparr>]
        (started\<lparr>mMoviePath := ''clip.mov''\<rparr>) = Some s'
     \<and> mMovie s' = None \<and> \<not> mSorted s' \<and> \<not> mSaved s'
     \<and> offsets_txt s' = None \<and> output_mov s' = None
     \<and> map mIndex (mFrameData s') = [0, 1]"
proof -
  let ?m = "\<lparr>frames =
          [Some \<lparr>getWidth = 1, getHeight = 1, pixels = [\<lparr>red = 255, green = 255, blue = 255, alpha = 255\<rparr>]\<rparr>,
           Some \<lparr>getWidth = 1, getHeight = 1, pixels = [\<lparr>red = 0, green = 0, blue = 0, alpha = 255\<rparr>]\<rparr>,
           None],
          position = 0\<rparr>"
  let ?s = "started\<lparr>mMoviePath := ''clip.mov''\<rparr>"
  let ?disk = "[''clip.mov'' \<mapsto> ?m]"
  have h: "?disk (mMoviePath ?s) = Some ?m" "0 \<le> START_FRAME" "START_FRAME \<le> 2"
    "2 < getNumFrames ?m" "frames ?m ! nat 2 = None"
    by (simp_all add: START_FRAME_def getNumFrames_def)
  have good: "\<forall>k. START_FRAME \<le> k \<and> k < 2 \<longrightarrow> frames ?m ! nat k \<noteq> None"
  proof (intro allI impI)
    fix k :: int assume "START_FRAME \<le> k \<and> k < 2"
    then have "k = 0 \<or> k = 1" by (auto simp: START_FRAME_def)
    then show "frames ?m ! nat k \<noteq> None" by auto
  qed
  have e: "mSorted ?s = False" "mSaved ?s = False" "offsets_txt ?s = None" "output_mov ?s = None"
    "mFrameData ?s = []"
    by (simp_all add: started_def)
  have u: "[START_FRAME..2 - 1] = [0, 1]" by (simp add: START_FRAME_def upto_rec1)
  show ?thesis
    using decode_failure_in_pass_1 [of ?disk ?s ?m START_FRAME 2, OF h good]
    unfolding e u by simp
qed

text \<open>
  On a movie of two frames whose second does not decode, the run ends with the record of
  the first frame in the table: the table is not emptied.
\<close>

theorem decode_failure_keeps_table_counterexample:
  "loadMovieFile START_FRAME
        [''clip.mov'' \<mapsto> \<lparr>frames =
          [Some \<lparr>getWidth = 1, getHeight = 1, pixels = [\<lparr>red = 255, green = 255, blue = 255, alpha = 255\<rparr>]\<rparr>,
           None],
          position = 0\<rparr>]
        (started\<lparr>mMoviePath := ''clip.mov''\<rparr>)
   = Some (started\<lparr>mMoviePath := ''clip.mov'',
       mFrameSurface := Some \<lparr>getWidth = 1, getHeight = 1,
         pixels = [\<lparr>red = 255, green = 255, blue = 255, alpha = 255\<rparr>]\<rparr>,
       mFrameData := [\<lparr>mIndex = 0, mBrightness = Fin 1\<rparr>],
       mFrameIndex := 1\<rparr>)"
  by (simp add: loadMovieFile_def processAllFrames_def process_loop.simps processNextFrame_def
      getSurface_def getNumFrames_def seekToFrame_def stepForward_def START_FRAME_def started_def
      frame_brightness_def line_loop_def pixel_loop_def pixel_term_def channel_sum_def
      getPixel_def dbl_of_int_def)


subsection \<open>Pass 2\<close>







subsection \<open>C3: the saved movie\<close>





lemma save_loop_returns:
  "mMovie s = Some m \<Longrightarrow>
    (\<forall>d \<in> set ds. 0 \<le> mIndex d \<and> mIndex d < getNumFrames m
        \<and> frames m ! nat (mIndex d) \<noteq> None)
    \<Longrightarrow> \<exists>s'. save_loop ds s = Returned s'"
proof (induction ds arbitrary: s m)
  case Nil
  show ?case by simp
next
  case (Cons d ds)
  let ?m1 = "seekToFrame m (mIndex d)"
  have f: "frames ?m1 = frames m" "position ?m1 = mIndex d" "getNumFrames ?m1 = getNumFrames m"
    by (simp_all add: seekToFrame_def getNumFrames_def)
  obtain sfc where g: "getSurface ?m1 = Inr sfc"
    using Cons.prems(2) unfolding getSurface_Inr f by auto
  let ?s1 = "s\<lparr>mMovie := Some ?m1, mFrameSurface := Some sfc,
      output_mov := map_option (\<lambda>written. written @ [sfc]) (output_mov s)\<rparr>"
  have m1: "mMovie ?s1 = Some ?m1" by simp
  have "\<forall>d \<in> set ds. 0 \<le> mIndex d \<and> mIndex d < getNumFrames ?m1
        \<and> frames ?m1 ! nat (mIndex d) \<noteq> None"
    using Cons.prems(2) unfolding f by simp
  then obtain s' where "save_loop ds ?s1 = Returned s'"
    using Cons.IH [OF m1] by blast
  then show ?case using Cons.prems(1) g by simp
qed

text \<open>
  A run on a movie whose frames from \<^verbatim>\<open>START_FRAME\<close> on all decode, and whose surfaces
  all have a pixel, saves the movie.
\<close>

lemma loadMovieFile_succeeds:
  assumes "disk (mMoviePath s) = Some m" "mFrameData s = []" "0 \<le> start"
    "\<forall>k. start \<le> k \<and> k < getNumFrames m \<longrightarrow> frames m ! nat k \<noteq> None"
    "\<forall>sfc. Some sfc \<in> set (frames m) \<longrightarrow> 0 < getWidth sfc * getHeight sfc"
  shows "\<exists>s'. loadMovieFile start disk s = Some s' \<and> mSaved s'"
proof -
  let ?s0 = "s\<lparr>mMovie := Some m\<rparr>"
  have m0: "mMovie ?s0 = Some m" by simp
  obtain s1 where p1: "processAllFrames start ?s0 = Returned s1"
    using processAllFrames_returns [OF m0 assms(3,4)] by blast
  note R = processAllFrames_Returned [OF m0 p1]
  obtain m1 where m1: "mMovie s1 = Some m1" "frames m1 = frames m"
    using R by blast
  have idx1: "map mIndex (mFrameData s1) = [start..getNumFrames m - 1]"
    using R assms(2) by simp
  have "mBrightness d \<noteq> NaN" if "d \<in> set (mFrameData s1)" for d
  proof -
    have "\<forall>d \<in> set (mFrameData s1). d \<in> set (mFrameData ?s0)
          \<or> (\<exists>sfc. Some sfc \<in> set (frames m) \<and> mBrightness d = frame_brightness sfc)"
      using R by blast
    then have "\<exists>sfc. Some sfc \<in> set (frames m) \<and> mBrightness d = frame_brightness sfc"
      using that assms(2) by simp
    then obtain sfc where "Some sfc \<in> set (frames m)" "mBrightness d = frame_brightness sfc"
      by blast
    then show ?thesis using assms(5) by (simp add: frame_brightness_Fin)
  qed
  then have sw: "strict_weak_on FrameBrightnessSort (mFrameData s1)"
    by (intro strict_weak_no_NaN) blast
  define s2 where "s2 = s1\<lparr>mFrameData := insertion_sort FrameBrightnessSort (mFrameData s1),
      mSorted := True, mFrameIndex := 0,
      offsets_txt := Some (map print_line (insertion_sort FrameBrightnessSort (mFrameData s1)))\<rparr>"
  have srt: "sortMovie s1 = Returned s2"
    using sw by (simp add: sortMovie_Returned s2_def)
  have m2: "mMovie (s2\<lparr>output_mov := Some []\<rparr>) = Some m1" "mSorted s2"
    using m1(1) by (simp_all add: s2_def)
  have set2: "set (mFrameData s2) = set (mFrameData s1)"
  proof -
    have "mFrameData s2 = insertion_sort FrameBrightnessSort (mFrameData s1)"
      by (simp add: s2_def)
    then have "mset (mFrameData s2) = mset (mFrameData s1)"
      by (simp add: mset_insertion_sort)
    then show ?thesis by (metis set_mset_mset)
  qed
  have N1: "getNumFrames m1 = getNumFrames m" using m1(2) by (simp add: getNumFrames_def)
  have "0 \<le> mIndex d \<and> mIndex d < getNumFrames m1 \<and> frames m1 ! nat (mIndex d) \<noteq> None"
    if "d \<in> set (mFrameData s2)" for d
  proof -
    have "mIndex d \<in> set (map mIndex (mFrameData s1))" using that set2 by simp
    then have "start \<le> mIndex d \<and> mIndex d < getNumFrames m"
      unfolding idx1 by simp
    then show ?thesis using assms(3,4) unfolding N1 m1(2) by auto
  qed
  then obtain s3 where sv: "save_loop (mFrameData s2) (s2\<lparr>output_mov := Some []\<rparr>) = Returned s3"
    using save_loop_returns [OF m2(1)] by blast
  have "loadMovieFile start disk s = Some (s3\<lparr>mSaved := True\<rparr>)"
    using assms(1) p1 srt sv m2(2) by (simp add: loadMovieFile_def saveMovie_def)
  then show ?thesis by simp
qed



subsection \<open>The offsets file written and read back\<close>















subsection \<open>C6: the offsets file does not keep the order\<close>





end
